theory Spec2Isabelle
  imports Main "HOL-Library.Word"
begin

section \<open>The completion vocabulary of the C boundary\<close>

text \<open>
  \<^verbatim>\<open>exec/system_context.hpp\<close> talks to the execution engine through a C interface.
  The engine reports a completion as \<^verbatim>\<open>(int __completion_type, void* __exception)\<close>.
  An \<^verbatim>\<open>int\<close> is a 32-bit word (read as two's complement by \<open>sint\<close>) and a \<^verbatim>\<open>void*\<close> a 64-bit word.
  A \<^verbatim>\<open>std::exception_ptr\<close> is one pointer wide; the header reads the bits of the
  \<^verbatim>\<open>void*\<close> as an \<^verbatim>\<open>exception_ptr\<close> (\<^verbatim>\<open>reinterpret_cast\<close>), so the model wraps the same
  64 bits.
\<close>

type_synonym c_int = "32 word"
type_synonym void_ptr = "64 word"

datatype exception_ptr = Exception_ptr (raw_ptr: void_ptr)

text \<open>
  The completion signatures of \<^verbatim>\<open>system_sender\<close> and \<^verbatim>\<open>system_bulk_sender\<close>:
  \<^verbatim>\<open>set_value_t()\<close>, \<^verbatim>\<open>set_stopped_t()\<close>, \<^verbatim>\<open>set_error_t(std::exception_ptr)\<close>.
\<close>

datatype signal = Sig_value | Sig_stopped | Sig_error exception_ptr

text \<open>
  A completion as a receiver sees it. A value completion carries the argument pack
  (a list of values of type \<open>'v\<close>); \<^verbatim>\<open>set_value(recv)\<close> with no argument is
  \<open>Set_value []\<close>.
\<close>

datatype 'v completion = Set_value "'v list" | Set_stopped | Set_error exception_ptr

fun completion_of :: "signal \<Rightarrow> 'v completion" where
  "completion_of Sig_value = Set_value []"
| "completion_of Sig_stopped = Set_stopped"
| "completion_of (Sig_error e) = Set_error e"

text \<open>
  A receiver type \<^verbatim>\<open>__R\<close> is a template parameter; what the header knows of it are the
  three customisation points. The model passes them as a dictionary: \<open>'r\<close> is the
  receiver object, \<open>'w\<close> the state of the world its completion functions act on.
\<close>

record ('r, 'v, 'w) receiver_ops =
  set_value :: "'r \<Rightarrow> 'v list \<Rightarrow> 'w \<Rightarrow> 'w"
  set_stopped :: "'r \<Rightarrow> 'w \<Rightarrow> 'w"
  set_error :: "'r \<Rightarrow> exception_ptr \<Rightarrow> 'w \<Rightarrow> 'w"

text \<open>Invoking the channel of a completion on a receiver.\<close>

fun invoke :: "('r, 'v, 'w) receiver_ops \<Rightarrow> 'r \<Rightarrow> 'v completion \<Rightarrow> 'w \<Rightarrow> 'w" where
  "invoke ops recv (Set_value as) w = set_value ops recv as w"
| "invoke ops recv Set_stopped w = set_stopped ops recv w"
| "invoke ops recv (Set_error e) w = set_error ops recv e w"

text \<open>
  \<^verbatim>\<open>__detail::__pass_to_receiver\<close> (system_context.hpp, lines 24-35):
  \<^verbatim>\<open>
  if (__completion_type == 0)      stdexec::set_value(std::forward<__R>(__recv));
  else if (__completion_type == 1) stdexec::set_stopped(std::forward<__R>(__recv));
  else if (__completion_type == 2) stdexec::set_error(std::forward<__R>(__recv),
      std::move(*reinterpret_cast<std::exception_ptr*>(&__exception)));
  \<close>
  There is no final \<^verbatim>\<open>else\<close>: any other discriminant falls through and the function
  returns.
\<close>

definition pass_to_receiver ::
  "('r, 'v, 'w) receiver_ops \<Rightarrow> c_int \<Rightarrow> void_ptr \<Rightarrow> 'r \<Rightarrow> 'w \<Rightarrow> 'w" where
  "pass_to_receiver ops completion_type exception recv w =
     (if completion_type = 0 then set_value ops recv [] w
      else if completion_type = 1 then set_stopped ops recv w
      else if completion_type = 2 then set_error ops recv (Exception_ptr exception) w
      else w)"

text \<open>
  Modelled from the spec: the encoding side of the boundary, which lives in the engine
  (\<^verbatim>\<open>__detail/__system_context_default_impl.hpp\<close>, not part of the sources at hand).
  Section 6 of the specification: "integer {0=value, 1=cancelled, 2=error} plus opaque
  payload pointer (error payload points to an error object; value payload, if any, is
  carried out-of-band)". The payload of a value or cancelled completion is the null
  pointer.
\<close>

fun discriminant :: "signal \<Rightarrow> c_int" where
  "discriminant Sig_value = 0"
| "discriminant Sig_stopped = 1"
| "discriminant (Sig_error e) = 2"

fun payload :: "signal \<Rightarrow> void_ptr" where
  "payload Sig_value = 0"
| "payload Sig_stopped = 0"
| "payload (Sig_error e) = raw_ptr e"

text \<open>
  A receiver that only records what it is called with: its world is the list of the
  completions delivered so far.
\<close>

definition recording_ops :: "(unit, 'v, 'v completion list) receiver_ops" where
  "recording_ops =
     \<lparr> set_value = (\<lambda>_ as w. w @ [Set_value as]),
       set_stopped = (\<lambda>_ w. w @ [Set_stopped]),
       set_error = (\<lambda>_ e w. w @ [Set_error e]) \<rparr>"

section \<open>The system context and its scheduler handles\<close>

text \<open>
  Pointers to interface objects are addresses (natural numbers). An
  \<^verbatim>\<open>__exec_system_context_interface\<close> is a table whose entry \<^verbatim>\<open>__get_scheduler\<close> takes
  the table's own address and returns the address of a scheduler interface.

  Modelled from the spec: the tables are filled in by the engine, whose header
  (\<^verbatim>\<open>__detail/__system_context_default_impl.hpp\<close>) is not among the sources. Section 8 of
  the specification: "two scheduler handles obtained from the same engine instance
  compare equal". The entry is therefore a function of the implementation object it is
  called on: asked twice, an implementation hands out the same scheduler interface.
\<close>

type_synonym interface_ptr = nat

record exec_system_context_interface =
  get_scheduler_entry :: "interface_ptr \<Rightarrow> interface_ptr"

text \<open>
  The process: the interface objects in memory (a partial map: not every address holds
  one), and the implementation that
  \<^verbatim>\<open>__system_context_default_impl::__get_exec_system_context_impl()\<close> hands out.

  Modelled from the spec: that function is declared in
  \<^verbatim>\<open>__detail/__system_context_default_impl.hpp\<close>, which is not among the sources. Section 6 of
  the specification: "a single global slot holding the current scheduler implementation".
  The model reads the slot \<open>current_impl\<close>.
\<close>

record process =
  current_impl :: interface_ptr
  context_interfaces :: "interface_ptr \<rightharpoonup> exec_system_context_interface"
  hardware_concurrency :: "32 word"

text \<open>
  The interface object a pointer refers to. The null pointer (address 0) and an address
  that holds no interface object refer to none.
\<close>

definition interface_at :: "process \<Rightarrow> interface_ptr \<Rightarrow> exec_system_context_interface option" where
  "interface_at p i = (if i = 0 then None else context_interfaces p i)"

definition get_exec_system_context_impl :: "process \<Rightarrow> interface_ptr" where
  "get_exec_system_context_impl p = current_impl p"

text \<open>
  \<^verbatim>\<open>class system_context\<close>: the object (at address \<open>context_addr\<close>; it is neither
  copyable nor movable) holds \<^verbatim>\<open>__impl_\<close>.
\<close>

record system_context =
  context_addr :: nat
  context_impl :: interface_ptr

text \<open>\<^verbatim>\<open>class system_scheduler\<close> wraps \<^verbatim>\<open>__scheduler_\<close>.\<close>

record system_scheduler =
  scheduler_impl :: interface_ptr

text \<open>\<^verbatim>\<open>system_context::system_context()\<close> (lines 364-367), constructing at \<open>this\<close>.\<close>

definition new_system_context :: "nat \<Rightarrow> process \<Rightarrow> system_context" where
  "new_system_context this p =
     \<lparr> context_addr = this, context_impl = get_exec_system_context_impl p \<rparr>"

text \<open>
  \<^verbatim>\<open>system_context::get_scheduler()\<close> (lines 369-371):
  \<^verbatim>\<open>return system_scheduler{__impl_->__get_scheduler(__impl_)};\<close>
  The function dereferences \<^verbatim>\<open>__impl_\<close> without a check (the constructor leaves
  "TODO error handling"): where \<^verbatim>\<open>__impl_\<close> is null or refers to no interface object
  the call has no defined result, \<open>None\<close>.
\<close>

definition get_scheduler :: "process \<Rightarrow> system_context \<Rightarrow> system_scheduler option" where
  "get_scheduler p ctx =
     (case interface_at p (context_impl ctx) of
        None \<Rightarrow> None
      | Some impl \<Rightarrow>
          Some \<lparr> scheduler_impl = get_scheduler_entry impl (context_impl ctx) \<rparr>)"

text \<open>
  \<^verbatim>\<open>system_scheduler::operator==\<close> (lines 71-74):
  \<^verbatim>\<open>return __scheduler_ == __rhs.__scheduler_;\<close>
\<close>

definition scheduler_eq :: "system_scheduler \<Rightarrow> system_scheduler \<Rightarrow> bool" where
  "scheduler_eq lhs rhs = (scheduler_impl lhs = scheduler_impl rhs)"

text \<open>
  \<^verbatim>\<open>system_context::max_concurrency()\<close> (lines 373-375):
  \<^verbatim>\<open>return std::thread::hardware_concurrency();\<close>
  The standard function returns an \<^verbatim>\<open>unsigned int\<close> (0 when the value is not
  computable); the result type \<^verbatim>\<open>size_t\<close> is 64 bits wide, so the value is zero-extended.
\<close>

definition max_concurrency :: "process \<Rightarrow> system_context \<Rightarrow> 64 word" where
  "max_concurrency p ctx = ucast (hardware_concurrency p)"

text \<open>
  A process with two engines: the implementation object at address 7 hands out the
  scheduler interface at 107, the one at address 8 the scheduler interface at 208; the
  process-wide slot holds the first.
\<close>

definition two_engines :: process where
  "two_engines =
     \<lparr> current_impl = 7,
       context_interfaces =
         [7 \<mapsto> \<lparr> get_scheduler_entry = (\<lambda>self. self + 100) \<rparr>,
          8 \<mapsto> \<lparr> get_scheduler_entry = (\<lambda>self. self + 200) \<rparr>],
       hardware_concurrency = 8 \<rparr>"

section \<open>Senders, receivers and operation states of the system scheduler\<close>

text \<open>
  An operation state is immovable: callbacks capture it by address. An address is the
  storage the caller provides followed by the path of members inside the object: for a
  \<^verbatim>\<open>__bulk_op\<close> at \<open>a\<close>, its \<^verbatim>\<open>__state_\<close> is at \<open>a @ [0]\<close> and its
  \<^verbatim>\<open>__previous_operation_state_\<close> at \<open>a @ [1]\<close>.
\<close>

type_synonym addr = "nat list"

text \<open>
  The two functions the header hands to the engine as completion callbacks
  (\<^verbatim>\<open>system_sender::__op::__cb\<close> and \<^verbatim>\<open>__bulk_intermediate_receiver::__cb\<close>), and the
  per-item function (\<^verbatim>\<open>__type_erased_fn\<close>, the lambda of lines 226-231).
\<close>

datatype callback = Op_cb | Bulk_cb

datatype item_fn = Type_erased_fn

text \<open>
  A call through the scheduler interface:
  \<^verbatim>\<open>__schedule(self, cb, data)\<close> or \<^verbatim>\<open>__bulk_schedule(self, cb, fn, data, size)\<close>.
\<close>

datatype sched_call =
    Schedule interface_ptr callback addr
  | Bulk_schedule interface_ptr callback item_fn addr nat

text \<open>
  What can be observed of a run, in order: the calls made through the scheduler
  interface, the invocations \<^verbatim>\<open>__fun_(idx, args...)\<close> of a bulk function (named by a
  number), and the completions delivered to receivers outside the header (named by a
  number).
\<close>

datatype 'v event =
    Sched_call sched_call
  | Fn_call nat nat "'v list"
  | Delivered nat "'v completion"

text \<open>
  Senders. \<^verbatim>\<open>system_sender\<close> holds \<^verbatim>\<open>__scheduler_\<close>; \<^verbatim>\<open>system_bulk_sender\<close> holds
  \<^verbatim>\<open>__scheduler_\<close>, \<^verbatim>\<open>__previous_\<close>, \<^verbatim>\<open>__size_\<close> and \<^verbatim>\<open>__fun_\<close>. The template parameter
  \<^verbatim>\<open>__Previous\<close> may be any sender; \<open>Inner_task c\<close> stands for an inner task that is not
  defined in this header, by the completion it delivers once started (as \<^verbatim>\<open>just\<close>,
  \<^verbatim>\<open>just_stopped\<close> and \<^verbatim>\<open>just_error\<close> do).
\<close>

datatype 'v sender =
    System_sender interface_ptr
  | System_bulk_sender interface_ptr "'v sender" nat nat
  | Inner_task "'v completion"

text \<open>
  Receivers. \<open>Final_receiver k\<close> is a receiver from outside the header.
  \<^verbatim>\<open>__bulk_intermediate_receiver\<close> holds a reference \<^verbatim>\<open>__state_\<close> to the \<^verbatim>\<open>__bulk_state\<close> of
  its operation. Of that state the sender's scheduler, size and function and the
  receiver \<^verbatim>\<open>__recv_\<close> are fixed when the operation state is constructed, so the
  reference is modelled as the state's address together with these fields; the one
  field that changes, \<^verbatim>\<open>__arguments_data_\<close>, is kept in the world under the state's
  address.
\<close>

datatype 'v rcvr =
    Final_receiver nat
  | Bulk_intermediate_receiver addr "'v bulk_state"
and 'v bulk_state =
    Bulk_state (snd_scheduler: interface_ptr) (snd_size: nat) (snd_fun: nat)
      (state_recv: "'v rcvr")

text \<open>
  Operation states: \<^verbatim>\<open>system_sender::__op\<close> (\<^verbatim>\<open>__recv_\<close>, \<^verbatim>\<open>__scheduler_\<close>), \<^verbatim>\<open>__bulk_op\<close>
  (\<^verbatim>\<open>__state_\<close>, \<^verbatim>\<open>__previous_operation_state_\<close>), and the operation state of an inner
  task from outside the header.
\<close>

datatype 'v op_state =
    Op "'v rcvr" interface_ptr
  | Bulk_op "'v bulk_state" "'v op_state"
  | Inner_op "'v rcvr" "'v completion"

datatype 'v object = Obj_op "'v op_state" | Obj_state "'v bulk_state"

text \<open>
  The world: the operation states alive in memory (each at the address of the storage
  its owner provided), the \<^verbatim>\<open>__arguments_data_\<close> of every bulk state (\<open>None\<close> is
  \<^verbatim>\<open>nullptr\<close>, \<open>Some as\<close> the heap-allocated tuple of arguments), and the trace.
\<close>

record 'v world =
  memory :: "(addr \<times> 'v op_state) list"
  arguments_data :: "addr \<Rightarrow> 'v list option"
  trace :: "'v event list"

definition empty_world :: "'v world" where
  "empty_world = \<lparr> memory = [], arguments_data = (\<lambda>_. None), trace = [] \<rparr>"

text \<open>
  The completion functions of the receivers. For \<^verbatim>\<open>__bulk_intermediate_receiver\<close>
  (lines 213-255):
  \<^item> \<^verbatim>\<open>set_value(as...)\<close> stores the arguments on the heap and calls
    \<^verbatim>\<open>__bulk_schedule(__scheduler_, __cb, __type_erased_fn, &__state_, __size_)\<close>;
  \<^item> \<^verbatim>\<open>set_stopped()\<close> does \<^verbatim>\<open>delete[] __arguments_data_\<close> and
    \<^verbatim>\<open>set_stopped(std::move(__state_.__recv_))\<close>;
  \<^item> \<^verbatim>\<open>set_error(ptr)\<close> does \<^verbatim>\<open>delete[] __arguments_data_\<close> and
    \<^verbatim>\<open>set_error(std::move(__state_.__recv_), std::move(ptr))\<close>.
\<close>

fun deliver :: "'v rcvr \<Rightarrow> 'v completion \<Rightarrow> 'v world \<Rightarrow> 'v world" where
  "deliver (Final_receiver k) c w = w\<lparr>trace := trace w @ [Delivered k c]\<rparr>"
| "deliver (Bulk_intermediate_receiver a (Bulk_state s n f r)) (Set_value as) w =
     w\<lparr>arguments_data := (arguments_data w)(a \<mapsto> as),
       trace := trace w @ [Sched_call (Bulk_schedule s Bulk_cb Type_erased_fn a n)]\<rparr>"
| "deliver (Bulk_intermediate_receiver a (Bulk_state s n f r)) Set_stopped w =
     deliver r Set_stopped (w\<lparr>arguments_data := (arguments_data w)(a := None)\<rparr>)"
| "deliver (Bulk_intermediate_receiver a (Bulk_state s n f r)) (Set_error e) w =
     deliver r (Set_error e) (w\<lparr>arguments_data := (arguments_data w)(a := None)\<rparr>)"

definition rcvr_ops :: "('v rcvr, 'v, 'v world) receiver_ops" where
  "rcvr_ops =
     \<lparr> set_value = (\<lambda>r as. deliver r (Set_value as)),
       set_stopped = (\<lambda>r. deliver r Set_stopped),
       set_error = (\<lambda>r e. deliver r (Set_error e)) \<rparr>"

text \<open>
  \<^verbatim>\<open>tag_invoke(stdexec::connect_t, ...)\<close>, constructing the operation state at \<open>this\<close>.
  For \<^verbatim>\<open>system_sender\<close> (lines 171-178): \<^verbatim>\<open>return {std::move(__r), __self.__scheduler_};\<close>.
  For \<^verbatim>\<open>system_bulk_sender\<close> (lines 334-346 and the constructor of \<^verbatim>\<open>__bulk_op\<close>, lines
  282-289): the state is built from the sender and the receiver, and the previous sender
  is connected to a \<^verbatim>\<open>__bulk_intermediate_receiver\<close> that refers to that state.
\<close>

fun connect :: "addr \<Rightarrow> 'v sender \<Rightarrow> 'v rcvr \<Rightarrow> 'v op_state" where
  "connect this (System_sender s) r = Op r s"
| "connect this (System_bulk_sender s previous n f) r =
     Bulk_op (Bulk_state s n f r)
       (connect (this @ [1]) previous
          (Bulk_intermediate_receiver (this @ [0]) (Bulk_state s n f r)))"
| "connect this (Inner_task c) r = Inner_op r c"

text \<open>
  \<^verbatim>\<open>tag_invoke(stdexec::start_t, ...)\<close>. For \<^verbatim>\<open>__op\<close> (lines 155-158):
  \<^verbatim>\<open>__self.__scheduler_->__schedule(__self.__scheduler_, __cb, &__self);\<close>.
  For \<^verbatim>\<open>__bulk_op\<close> (lines 296-301): \<^verbatim>\<open>stdexec::start(__self.__previous_operation_state_);\<close>.
  An inner task from outside the header delivers its completion.
\<close>

fun start :: "addr \<Rightarrow> 'v op_state \<Rightarrow> 'v world \<Rightarrow> 'v world" where
  "start self (Op r s) w = w\<lparr>trace := trace w @ [Sched_call (Schedule s Op_cb self)]\<rparr>"
| "start self (Bulk_op st previous_operation_state) w =
     start (self @ [1]) previous_operation_state w"
| "start self (Inner_op r c) w = deliver r c w"

text \<open>The object a pointer refers to: an operation state, or the state of a bulk operation.\<close>

fun object_at :: "addr \<Rightarrow> 'v op_state \<Rightarrow> addr \<Rightarrow> 'v object option" where
  "object_at a (Bulk_op st inner) p =
     (if p = a then Some (Obj_op (Bulk_op st inner))
      else if p = a @ [0] then Some (Obj_state st)
      else object_at (a @ [1]) inner p)"
| "object_at a (Op r s) p = (if p = a then Some (Obj_op (Op r s)) else None)"
| "object_at a (Inner_op r c) p = (if p = a then Some (Obj_op (Inner_op r c)) else None)"

fun deref :: "(addr \<times> 'v op_state) list \<Rightarrow> addr \<Rightarrow> 'v object option" where
  "deref [] p = None"
| "deref ((a, op) # rest) p =
     (case object_at a op p of Some obj \<Rightarrow> Some obj | None \<Rightarrow> deref rest p)"

text \<open>\<^verbatim>\<open>char* __arguments_data_{nullptr};\<close> for every bulk state of a new operation state.\<close>

fun init_arguments ::
  "addr \<Rightarrow> 'v op_state \<Rightarrow> (addr \<Rightarrow> 'v list option) \<Rightarrow> (addr \<Rightarrow> 'v list option)" where
  "init_arguments a (Bulk_op st inner) m = init_arguments (a @ [1]) inner (m(a @ [0] := None))"
| "init_arguments a (Op r s) m = m"
| "init_arguments a (Inner_op r c) m = m"

text \<open>
  The caller's \<^verbatim>\<open>auto op = stdexec::connect(sndr, r);\<close> with \<open>op\<close> at address \<open>a\<close>, and
  \<^verbatim>\<open>stdexec::start(op);\<close>.
\<close>

definition connect_at :: "addr \<Rightarrow> 'v sender \<Rightarrow> 'v rcvr \<Rightarrow> 'v world \<Rightarrow> 'v world" where
  "connect_at a sndr r w =
     w\<lparr>memory := (a, connect a sndr r) # memory w,
       arguments_data := init_arguments a (connect a sndr r) (arguments_data w)\<rparr>"

definition start_at :: "addr \<Rightarrow> 'v world \<Rightarrow> 'v world option" where
  "start_at a w =
     (case deref (memory w) a of
        Some (Obj_op op) \<Rightarrow> Some (start a op w)
      | _ \<Rightarrow> None)"

text \<open>
  \<^verbatim>\<open>system_sender::__op::__cb\<close> (lines 160-163):
  \<^verbatim>\<open>
  auto __self = static_cast<__op*>(__data);
  __detail::__pass_to_receiver(__completion_type, __exception, std::move(__self->__recv_));
  \<close>
  A pointer that does not refer to an \<^verbatim>\<open>__op\<close> has no defined behaviour: \<open>None\<close>.
\<close>

definition op_cb :: "addr \<Rightarrow> c_int \<Rightarrow> void_ptr \<Rightarrow> 'v world \<Rightarrow> 'v world option" where
  "op_cb data completion_type exception w =
     (case deref (memory w) data of
        Some (Obj_op (Op recv s)) \<Rightarrow>
          Some (pass_to_receiver rcvr_ops completion_type exception recv w)
      | _ \<Rightarrow> None)"

text \<open>
  \<^verbatim>\<open>__bulk_intermediate_receiver::__cb\<close> (lines 263-268):
  \<^verbatim>\<open>
  auto __state = static_cast<__bulk_state_t*>(__data);
  delete[] __state->__arguments_data_;
  __detail::__pass_to_receiver(__completion_type, __exception, std::move(__state->__recv_));
  \<close>
\<close>

definition bulk_cb :: "addr \<Rightarrow> c_int \<Rightarrow> void_ptr \<Rightarrow> 'v world \<Rightarrow> 'v world option" where
  "bulk_cb data completion_type exception w =
     (case deref (memory w) data of
        Some (Obj_state (Bulk_state s n f recv)) \<Rightarrow>
          Some (pass_to_receiver rcvr_ops completion_type exception recv
                  (w\<lparr>arguments_data := (arguments_data w)(data := None)\<rparr>))
      | _ \<Rightarrow> None)"

text \<open>
  \<^verbatim>\<open>__type_erased_fn\<close> (lines 226-231): \<^verbatim>\<open>std::apply\<close> of
  \<^verbatim>\<open>__state->__snd_.__fun_(__idx, __args...)\<close> to the stored tuple of arguments.
\<close>

definition type_erased_fn :: "addr \<Rightarrow> nat \<Rightarrow> 'v world \<Rightarrow> 'v world option" where
  "type_erased_fn state idx w =
     (case deref (memory w) state of
        Some (Obj_state (Bulk_state s n f recv)) \<Rightarrow>
          (case arguments_data w state of
             Some as \<Rightarrow> Some (w\<lparr>trace := trace w @ [Fn_call f idx as]\<rparr>)
           | None \<Rightarrow> None)
      | _ \<Rightarrow> None)"

text \<open>Calling through a function pointer.\<close>

fun call_callback ::
  "callback \<Rightarrow> addr \<Rightarrow> c_int \<Rightarrow> void_ptr \<Rightarrow> 'v world \<Rightarrow> 'v world option" where
  "call_callback Op_cb = op_cb"
| "call_callback Bulk_cb = bulk_cb"

fun call_item_fn :: "item_fn \<Rightarrow> addr \<Rightarrow> nat \<Rightarrow> 'v world \<Rightarrow> 'v world option" where
  "call_item_fn Type_erased_fn = type_erased_fn"

text \<open>
  Sender trees made of \<^verbatim>\<open>system_sender\<close> and \<^verbatim>\<open>system_bulk_sender\<close> only, the address of
  the innermost \<^verbatim>\<open>__op\<close> of their operation state, and the scheduler it holds.
\<close>

fun system_only :: "'v sender \<Rightarrow> bool" where
  "system_only (System_sender s) = True"
| "system_only (System_bulk_sender s previous n f) = system_only previous"
| "system_only (Inner_task c) = False"

fun leaf_addr :: "addr \<Rightarrow> 'v sender \<Rightarrow> addr" where
  "leaf_addr a (System_bulk_sender s previous n f) = leaf_addr (a @ [1]) previous"
| "leaf_addr a (System_sender s) = a"
| "leaf_addr a (Inner_task c) = a"

fun leaf_scheduler :: "'v sender \<Rightarrow> interface_ptr option" where
  "leaf_scheduler (System_sender s) = Some s"
| "leaf_scheduler (System_bulk_sender s previous n f) = leaf_scheduler previous"
| "leaf_scheduler (Inner_task c) = None"

section \<open>The execution engine\<close>

text \<open>
  Modelled from the spec: the engine behind \<^verbatim>\<open>__exec_system_scheduler_interface\<close>; its
  implementation (\<^verbatim>\<open>__detail/__system_context_default_impl.hpp\<close>) is not among the sources.
  Section 4.2 of the specification: the scheduler "can accept a callback and eventually
  invoke it"; section 4.3: the function is invoked "once for each index in [0, count)",
  the engine "waits for all count invocations to finish; then completes". \<open>run_items\<close>
  invokes the per-item function on the given indices, one after the other.
\<close>

fun run_items :: "item_fn \<Rightarrow> addr \<Rightarrow> nat list \<Rightarrow> 'v world \<Rightarrow> 'v world option" where
  "run_items fn state [] w = Some w"
| "run_items fn state (i # rest) w =
     (case call_item_fn fn state i w of
        None \<Rightarrow> None
      | Some w' \<Rightarrow> run_items fn state rest w')"

text \<open>
  Modelled from the spec: the engine completing a call it accepted earlier, reporting
  the signal \<open>sg\<close> in the encoding of section 6 of the specification. For a bulk call
  all items run first.
\<close>

fun engine_complete :: "signal \<Rightarrow> sched_call \<Rightarrow> 'v world \<Rightarrow> 'v world option" where
  "engine_complete sg (Schedule s cb data) w =
     call_callback cb data (discriminant sg) (payload sg) w"
| "engine_complete sg (Bulk_schedule s cb fn state count) w =
     (case run_items fn state [0..<count] w of
        None \<Rightarrow> None
      | Some w' \<Rightarrow> call_callback cb state (discriminant sg) (payload sg) w')"

section \<open>The racing combinator\<close>

text \<open>
  Modelled from the spec: \<^verbatim>\<open>exec/when_any.hpp\<close> is not among the sources (its tests are).
  Tasks, as far as the racing combinator's tests use them: a task that completes on its
  own with a given completion (\<^verbatim>\<open>just(42)\<close>, \<^verbatim>\<open>just_stopped()\<close>, \<^verbatim>\<open>completes_if{true}\<close>), a
  task that never completes on its own and completes with cancelled once cancellation
  is requested (\<^verbatim>\<open>completes_if{false}\<close>; section 5: "cancellation is cooperative"), and
  \<^verbatim>\<open>when_any\<close> of a list of tasks.
\<close>

datatype 'v task =
    Completes "'v completion"
  | Waits_for_stop
  | When_any "'v task list"

datatype 'v behaviour = Natural "'v completion" | Until_stopped

text \<open>
  Modelled from the spec: the operation state of a started task. A leaf holds the
  completion it has delivered, if any. A race holds the racing-set state of section 3 -
  the winner slot (\<open>None\<close> while the "winner decided" flag is clear), the count-down of
  outstanding children - its child operation states, and the completion it has
  delivered to its own consumer, if any.
\<close>

datatype 'v racing =
    Leaf_op "'v behaviour" "'v completion option"
  | Race_op "'v completion option" nat "'v racing list" "'v completion option"

text \<open>
  Modelled from the spec: section 4.4, "starts all k children concurrently ... every
  child is started exactly once". Starting completes nothing yet.
\<close>

fun start_task :: "'v task \<Rightarrow> 'v racing" where
  "start_task (Completes c) = Leaf_op (Natural c) None"
| "start_task Waits_for_stop = Leaf_op Until_stopped None"
| "start_task (When_any ts) = Race_op None (length ts) (map start_task ts) None"

text \<open>The completion an operation state has delivered to its consumer.\<close>

fun result :: "'v racing \<Rightarrow> 'v completion option" where
  "result (Leaf_op b d) = d"
| "result (Race_op wn out cs dl) = dl"

text \<open>
  Modelled from the spec: a child of a race completes with \<open>c\<close> (section 4.4 and 5). "The
  first child to reach any completion is declared the winner via a single atomic
  compare-and-set on the winner-decided flag; only the thread that wins that
  compare-and-set may record the completion payload"; the results of the others are
  discarded. The counter supports "an atomic decrement-and-test so exactly one
  decrementer observes last child": that one delivers the recorded completion to the
  parent consumer.
\<close>

fun notify :: "'v completion \<Rightarrow> 'v racing \<Rightarrow> 'v racing" where
  "notify c (Race_op wn out cs dl) =
     (let wn' = (if wn = None then Some c else wn)
      in Race_op wn' (out - 1) cs (if out = 1 then wn' else dl))"
| "notify c (Leaf_op b d) = Leaf_op b d"

text \<open>
  Modelled from the spec: one step of the operation state at path \<open>p\<close> below a node,
  where \<open>stop\<close> tells whether cancellation has been requested through the node's
  consumer's environment. A leaf that completes on its own delivers its completion; a
  leaf that waits for cancellation delivers cancelled once it is requested. Inside a
  race the children see a cancellation request as soon as the winner is decided
  ("every other in-flight child receives a cancellation request through its consumer's
  environment") or when the race's own consumer requests it. A child that delivers a
  completion with this step notifies the race, in the same step. An operation state
  that has delivered its completion does nothing more.
\<close>

fun fire :: "bool \<Rightarrow> nat list \<Rightarrow> 'v racing \<Rightarrow> 'v racing" where
  "fire stop [] (Leaf_op (Natural c) None) = Leaf_op (Natural c) (Some c)"
| "fire stop [] (Leaf_op Until_stopped None) =
     (if stop then Leaf_op Until_stopped (Some Set_stopped) else Leaf_op Until_stopped None)"
| "fire stop (i # p) (Race_op wn out cs dl) =
     (if i < length cs then
        (let ch = fire (stop \<or> wn \<noteq> None) p (cs ! i)
         in if result (cs ! i) = None then
              (case result ch of
                 None \<Rightarrow> Race_op wn out (cs[i := ch]) dl
               | Some c \<Rightarrow> notify c (Race_op wn out (cs[i := ch]) dl))
            else Race_op wn out (cs[i := ch]) dl)
      else Race_op wn out cs dl)"
| "fire stop p ch = ch"

text \<open>
  Modelled from the spec: an interleaving is the list of the paths of the operation
  states that take a step, in order; the root's consumer requests no cancellation.
\<close>

fun run :: "nat list list \<Rightarrow> 'v racing \<Rightarrow> 'v racing" where
  "run [] s = s"
| "run (p # sched) s = run sched (fire False p s)"

text \<open>
  An operation state is finished when it and every operation state below it have
  delivered their completions. A tree is quiescent when below every race that has
  delivered its completion every operation state is finished.
\<close>

fun finished :: "'v racing \<Rightarrow> bool" where
  "finished (Leaf_op b d) = (d \<noteq> None)"
| "finished (Race_op wn out cs dl) = (dl \<noteq> None \<and> (\<forall>ch \<in> set cs. finished ch))"

fun quiescent :: "'v racing \<Rightarrow> bool" where
  "quiescent (Leaf_op b d) = True"
| "quiescent (Race_op wn out cs dl) =
     ((dl \<noteq> None \<longrightarrow> (\<forall>ch \<in> set cs. finished ch)) \<and> (\<forall>ch \<in> set cs. quiescent ch))"

text \<open>
  The invariant of the racing-set state: the counter is the number of children that
  have not delivered yet; the race has delivered only when the counter is zero, and
  then what the winner slot holds; the winner slot holds the completion of one of the
  children.
\<close>

fun racing_inv :: "'v racing \<Rightarrow> bool" where
  "racing_inv (Leaf_op b d) = True"
| "racing_inv (Race_op wn out cs dl) =
     (out = length (filter (\<lambda>ch. result ch = None) cs)
      \<and> (dl \<noteq> None \<longrightarrow> out = 0 \<and> dl = wn)
      \<and> (\<forall>c. wn = Some c \<longrightarrow> (\<exists>j < length cs. result (cs ! j) = Some c))
      \<and> (\<forall>ch \<in> set cs. racing_inv ch))"






text \<open>
  The states a race of two leaves can be in: one child waiting for cancellation and
  one completing with \<open>c\<close> (in either order), and two children completing with \<open>c\<close>.
\<close>

definition waits_then_completes :: "'v completion \<Rightarrow> 'v racing set" where
  "waits_then_completes c =
     { Race_op None 2 [Leaf_op Until_stopped None, Leaf_op (Natural c) None] None,
       Race_op (Some c) 1 [Leaf_op Until_stopped None, Leaf_op (Natural c) (Some c)] None,
       Race_op (Some c) 0
         [Leaf_op Until_stopped (Some Set_stopped), Leaf_op (Natural c) (Some c)] (Some c) }"

definition completes_then_waits :: "'v completion \<Rightarrow> 'v racing set" where
  "completes_then_waits c =
     { Race_op None 2 [Leaf_op (Natural c) None, Leaf_op Until_stopped None] None,
       Race_op (Some c) 1 [Leaf_op (Natural c) (Some c), Leaf_op Until_stopped None] None,
       Race_op (Some c) 0
         [Leaf_op (Natural c) (Some c), Leaf_op Until_stopped (Some Set_stopped)] (Some c) }"


section \<open>Properties of the boundary decoder\<close>

lemma unat_ucast_32_64: "unat (ucast (x :: 32 word) :: 64 word) = unat x"
proof -
  have "unat x < 2 ^ 32"
    using unsigned_less [of x] by simp
  then have "unat x < (2 :: nat) ^ 64"
    by simp
  then show ?thesis
    by (simp add: unsigned_ucast_eq take_bit_nat_eq_self)
qed

text \<open>
  C1. Round trip of the completion encoding. For every receiver type (every dictionary
  \<open>ops\<close>), every receiver \<open>recv\<close> and every completion signal \<open>s\<close> of the boundary:
  encoding \<open>s\<close> as its discriminant (0 value, 1 cancelled, 2 error) and payload pointer
  and decoding it with \<^verbatim>\<open>__pass_to_receiver\<close> does exactly what invoking the channel of
  \<open>s\<close> on \<open>recv\<close> does: \<^verbatim>\<open>set_value()\<close> for 0, \<^verbatim>\<open>set_stopped()\<close> for 1, \<^verbatim>\<open>set_error\<close> with the
  same exception pointer for 2. On the recording receiver exactly one completion is
  appended, the one that was encoded.
\<close>

theorem pass_to_receiver_round_trip:
  "pass_to_receiver ops (discriminant s) (payload s) recv w
     = invoke ops recv (completion_of s) w
   \<and> pass_to_receiver recording_ops (discriminant s) (payload s) () tr
     = tr @ [completion_of s]"
  by (cases s) (simp_all add: pass_to_receiver_def recording_ops_def)

text \<open>
  C9. A discriminant outside \<open>{0, 1, 2}\<close> is dropped: for every receiver,
  \<^verbatim>\<open>__pass_to_receiver\<close> leaves the world as it was (no channel is invoked) and returns.
  On the recording receiver nothing is appended, and the callback \<^verbatim>\<open>__op::__cb\<close> of a
  connected \<^verbatim>\<open>system_sender\<close> leaves the world as it was: an engine that delivers a
  malformed discriminant leaves the receiver without any completion.
\<close>

theorem pass_to_receiver_malformed_dropped:
  assumes "completion_type \<notin> {0, 1, 2}"
  shows "pass_to_receiver ops completion_type exception recv w = w
       \<and> pass_to_receiver recording_ops completion_type exception () tr = tr
       \<and> op_cb a completion_type exception (connect_at a (System_sender s) r w0)
           = Some (connect_at a (System_sender s) r w0)"
  using assms by (simp add: pass_to_receiver_def op_cb_def connect_at_def)

theorem pass_to_receiver_malformed_dropped_witness:
  "(3 :: c_int) \<notin> {0, 1, 2}
   \<and> pass_to_receiver recording_ops 3 0 () [Set_stopped :: nat completion] = [Set_stopped]
   \<and> map_option trace
         (op_cb [0] 3 0 (connect_at [0] (System_sender 1) (Final_receiver 9)
                           (empty_world :: nat world)))
       = Some []"
proof -
  have a: "(3 :: c_int) \<notin> {0, 1, 2}"
    by simp
  have "pass_to_receiver recording_ops 3 0 () [Set_stopped :: nat completion] = [Set_stopped]
      \<and> op_cb [0] 3 0 (connect_at [0] (System_sender 1) (Final_receiver 9)
                          (empty_world :: nat world))
          = Some (connect_at [0] (System_sender 1) (Final_receiver 9) empty_world)"
    using pass_to_receiver_malformed_dropped
      [OF a, of recording_ops 0 "()" "[Set_stopped :: nat completion]"
         "[Set_stopped :: nat completion]" "[0]" 1 "Final_receiver 9"
         "empty_world :: nat world"]
    by blast
  then show ?thesis
    using a by (simp add: connect_at_def empty_world_def)
qed

section \<open>Properties of the scheduler handle and the context\<close>

text \<open>
  C8. \<^verbatim>\<open>operator==\<close> on two scheduler handles is true exactly when they wrap the same
  scheduler-interface pointer. \<^verbatim>\<open>get_scheduler\<close> on a context whose \<^verbatim>\<open>__impl_\<close> refers to
  an implementation object returns the handle that wraps the pointer this
  implementation's \<^verbatim>\<open>__get_scheduler\<close> returns (and has no defined result where
  \<^verbatim>\<open>__impl_\<close> is null or dangling). So two handles obtained from the same
  \<^verbatim>\<open>system_context\<close> compare equal; handles obtained from two contexts compare equal
  exactly when the two implementations hand out the same scheduler interface, and
  unequal otherwise; and two \<^verbatim>\<open>system_context\<close> objects constructed at different
  addresses while the process-wide slot holds the same implementation both take that
  implementation from the slot, so their handles compare equal.
\<close>

theorem scheduler_eq_same_engine:
  "(scheduler_eq lhs rhs \<longleftrightarrow> scheduler_impl lhs = scheduler_impl rhs)
   \<and> context_impl (new_system_context this p) = current_impl p
   \<and> (interface_at p (context_impl ctx) = None \<longrightarrow> get_scheduler p ctx = None)
   \<and> (interface_at p (context_impl ctx) = Some impl \<longrightarrow>
        get_scheduler p ctx
          = Some \<lparr> scheduler_impl = get_scheduler_entry impl (context_impl ctx) \<rparr>)
   \<and> (get_scheduler p ctx = Some h \<and> get_scheduler p ctx = Some h' \<longrightarrow> scheduler_eq h h')
   \<and> (interface_at p (context_impl ctx1) = Some impl1
        \<and> interface_at p (context_impl ctx2) = Some impl2
        \<and> get_scheduler p ctx1 = Some h1 \<and> get_scheduler p ctx2 = Some h2 \<longrightarrow>
        (scheduler_eq h1 h2 \<longleftrightarrow>
           get_scheduler_entry impl1 (context_impl ctx1)
             = get_scheduler_entry impl2 (context_impl ctx2)))
   \<and> (this1 \<noteq> this2 \<and> interface_at p (current_impl p) = Some impl0 \<longrightarrow>
        new_system_context this1 p \<noteq> new_system_context this2 p
        \<and> (\<exists>k1 k2. get_scheduler p (new_system_context this1 p) = Some k1
              \<and> get_scheduler p (new_system_context this2 p) = Some k2
              \<and> scheduler_impl k1 = get_scheduler_entry impl0 (current_impl p)
              \<and> scheduler_eq k1 k2))"
proof -
  have a: "scheduler_eq lhs rhs \<longleftrightarrow> scheduler_impl lhs = scheduler_impl rhs"
    by (simp add: scheduler_eq_def)
  have b: "context_impl (new_system_context this p) = current_impl p"
    by (simp add: new_system_context_def get_exec_system_context_impl_def)
  have c: "get_scheduler p ctx = None" if "interface_at p (context_impl ctx) = None"
    using that by (simp add: get_scheduler_def)
  have d: "get_scheduler p c0
      = Some \<lparr> scheduler_impl = get_scheduler_entry i0 (context_impl c0) \<rparr>"
    if "interface_at p (context_impl c0) = Some i0" for c0 i0
    using that by (simp add: get_scheduler_def)
  have e: "scheduler_eq h h'"
    if "get_scheduler p ctx = Some h" "get_scheduler p ctx = Some h'"
    using that by (simp add: scheduler_eq_def)
  have f: "scheduler_eq h1 h2 \<longleftrightarrow>
        get_scheduler_entry impl1 (context_impl ctx1)
          = get_scheduler_entry impl2 (context_impl ctx2)"
    if "interface_at p (context_impl ctx1) = Some impl1"
      "interface_at p (context_impl ctx2) = Some impl2"
      "get_scheduler p ctx1 = Some h1" "get_scheduler p ctx2 = Some h2"
    using that d [of ctx1 impl1] d [of ctx2 impl2] by (auto simp: scheduler_eq_def)
  have g: "new_system_context this1 p \<noteq> new_system_context this2 p
        \<and> (\<exists>k1 k2. get_scheduler p (new_system_context this1 p) = Some k1
              \<and> get_scheduler p (new_system_context this2 p) = Some k2
              \<and> scheduler_impl k1 = get_scheduler_entry impl0 (current_impl p)
              \<and> scheduler_eq k1 k2)"
    if "this1 \<noteq> this2" "interface_at p (current_impl p) = Some impl0"
    using that
    by (simp add: new_system_context_def get_exec_system_context_impl_def get_scheduler_def
        scheduler_eq_def)
  show ?thesis
    using a b c d [of ctx impl] e f g by blast
qed

theorem scheduler_eq_same_engine_witness:
  "get_scheduler two_engines (new_system_context 1 two_engines)
     = Some \<lparr> scheduler_impl = 107 \<rparr>
   \<and> get_scheduler two_engines (new_system_context 2 two_engines)
     = Some \<lparr> scheduler_impl = 107 \<rparr>
   \<and> scheduler_eq \<lparr> scheduler_impl = 107 \<rparr> \<lparr> scheduler_impl = 107 \<rparr>
   \<and> get_scheduler two_engines (new_system_context 3 (two_engines\<lparr>current_impl := 8\<rparr>))
     = Some \<lparr> scheduler_impl = 208 \<rparr>
   \<and> \<not> scheduler_eq \<lparr> scheduler_impl = 107 \<rparr> \<lparr> scheduler_impl = 208 \<rparr>
   \<and> get_scheduler two_engines (new_system_context 4 (two_engines\<lparr>current_impl := 0\<rparr>))
     = None"
proof -
  let ?e7 = "\<lparr> get_scheduler_entry = (\<lambda>self :: nat. self + 100) \<rparr>"
  let ?e8 = "\<lparr> get_scheduler_entry = (\<lambda>self :: nat. self + 200) \<rparr>"
  let ?c1 = "new_system_context 1 two_engines"
  let ?c2 = "new_system_context 2 two_engines"
  let ?c3 = "new_system_context 3 (two_engines\<lparr>current_impl := 8\<rparr>)"
  let ?c4 = "new_system_context 4 (two_engines\<lparr>current_impl := 0\<rparr>)"
  have i1: "interface_at two_engines (context_impl ?c1) = Some ?e7"
    by (simp add: interface_at_def two_engines_def new_system_context_def
        get_exec_system_context_impl_def)
  have i2: "interface_at two_engines (context_impl ?c2) = Some ?e7"
    by (simp add: interface_at_def two_engines_def new_system_context_def
        get_exec_system_context_impl_def)
  have i3: "interface_at two_engines (context_impl ?c3) = Some ?e8"
    by (simp add: interface_at_def two_engines_def new_system_context_def
        get_exec_system_context_impl_def)
  have i4: "interface_at two_engines (context_impl ?c4) = None"
    by (simp add: interface_at_def two_engines_def new_system_context_def
        get_exec_system_context_impl_def)
  have v1: "context_impl ?c1 = 7" "context_impl ?c2 = 7" "context_impl ?c3 = 8"
    by (simp_all add: two_engines_def new_system_context_def get_exec_system_context_impl_def)
  have g1: "get_scheduler two_engines ?c1 = Some \<lparr> scheduler_impl = 107 \<rparr>"
    using scheduler_eq_same_engine [of _ _ _ two_engines ?c1 ?e7] i1 v1 by simp
  have g2: "get_scheduler two_engines ?c2 = Some \<lparr> scheduler_impl = 107 \<rparr>"
    using scheduler_eq_same_engine [of _ _ _ two_engines ?c2 ?e7] i2 v1 by simp
  have g3: "get_scheduler two_engines ?c3 = Some \<lparr> scheduler_impl = 208 \<rparr>"
    using scheduler_eq_same_engine [of _ _ _ two_engines ?c3 ?e8] i3 v1 by simp
  have g4: "get_scheduler two_engines ?c4 = None"
    using scheduler_eq_same_engine [of _ _ _ two_engines ?c4] i4 by blast
  have eq: "scheduler_eq \<lparr> scheduler_impl = 107 \<rparr> \<lparr> scheduler_impl = 107 \<rparr>"
    using scheduler_eq_same_engine
      [of _ _ _ two_engines ?c1 _ _ _ ?c1 ?e7 ?c2 ?e7
          "\<lparr> scheduler_impl = 107 \<rparr>" "\<lparr> scheduler_impl = 107 \<rparr>"]
      i1 i2 g1 g2 v1 by simp
  have ne: "\<not> scheduler_eq \<lparr> scheduler_impl = 107 \<rparr> \<lparr> scheduler_impl = 208 \<rparr>"
    using scheduler_eq_same_engine
      [of _ _ _ two_engines ?c1 _ _ _ ?c1 ?e7 ?c3 ?e8
          "\<lparr> scheduler_impl = 107 \<rparr>" "\<lparr> scheduler_impl = 208 \<rparr>"]
      i1 i3 g1 g3 v1 by simp
  show ?thesis
    using g1 g2 g3 g4 eq ne by blast
qed

text \<open>
  C10. \<^verbatim>\<open>max_concurrency()\<close> is the hardware concurrency of the process, whatever
  implementation is registered in the process-wide slot and whatever \<^verbatim>\<open>__impl_\<close> the
  context holds; when the hardware concurrency is unknown (0) the result is 0.
\<close>

theorem max_concurrency_is_hardware_concurrency:
  "unat (max_concurrency p ctx) = unat (hardware_concurrency p)
   \<and> max_concurrency (p\<lparr>current_impl := i, context_interfaces := t\<rparr>) ctx' = max_concurrency p ctx
   \<and> max_concurrency (p\<lparr>hardware_concurrency := 0\<rparr>) ctx = 0"
  by (simp add: max_concurrency_def unat_ucast_32_64)

section \<open>Properties of connect and start\<close>

lemma leaf_addr_extends: "\<exists>t. leaf_addr a sndr = a @ t"
  by (induction sndr arbitrary: a) (auto, metis append.assoc)

lemma object_at_self: "object_at a op a = Some (Obj_op op)"
  by (cases op) simp_all

lemma object_at_leaf:
  "system_only sndr \<Longrightarrow>
   \<exists>recv s. leaf_scheduler sndr = Some s
     \<and> object_at a (connect a sndr r) (leaf_addr a sndr) = Some (Obj_op (Op recv s))"
proof (induction sndr arbitrary: a r)
  case (System_sender s)
  then show ?case by simp
next
  case (System_bulk_sender s previous n f)
  obtain t where t: "leaf_addr (a @ [1]) previous = (a @ [1]) @ t"
    using leaf_addr_extends by blast
  have ne: "leaf_addr (a @ [1]) previous \<noteq> a" "leaf_addr (a @ [1]) previous \<noteq> a @ [0]"
    using t by auto
  from System_bulk_sender show ?case
    using ne by simp
next
  case (Inner_task c)
  then show ?case by simp
qed

lemma start_system_only:
  "system_only sndr \<Longrightarrow> leaf_scheduler sndr = Some s \<Longrightarrow>
   start a (connect a sndr r) w
     = w\<lparr>trace := trace w @ [Sched_call (Schedule s Op_cb (leaf_addr a sndr))]\<rparr>"
  by (induction sndr arbitrary: a r) simp_all

text \<open>
  C2 as stated fails for bulk senders. \<^verbatim>\<open>bulk(schedule(sched), 16, fn)\<close> connected at
  address \<open>[0]\<close> and started: the one \<^verbatim>\<open>__schedule\<close> call carries the address \<open>[0, 1]\<close> of
  the inner \<^verbatim>\<open>system_sender\<close> operation state, not the address \<open>[0]\<close> of the bulk
  operation state that was started. And a bulk sender whose inner task completes at
  once makes no \<^verbatim>\<open>__schedule\<close> call at all when started, but a \<^verbatim>\<open>__bulk_schedule\<close> call.
\<close>

theorem bulk_start_passes_inner_address:
  "map_option trace
     (start_at [0] (connect_at [0] (System_bulk_sender 1 (System_sender 1) 16 5)
                      (Final_receiver 9) (empty_world :: nat world)))
     = Some [Sched_call (Schedule 1 Op_cb [0, 1])]
   \<and> map_option trace
     (start_at [0] (connect_at [0] (System_bulk_sender 1 (System_sender 1) 16 5)
                      (Final_receiver 9) (empty_world :: nat world)))
     \<noteq> Some [Sched_call (Schedule 1 Op_cb [0])]
   \<and> map_option trace
     (start_at [0] (connect_at [0] (System_bulk_sender 1 (Inner_task (Set_value [])) 16 5)
                      (Final_receiver 9) (empty_world :: nat world)))
     = Some [Sched_call (Bulk_schedule 1 Bulk_cb Type_erased_fn [0, 0] 16)]"
  by (simp add: start_at_def connect_at_def empty_world_def)

text \<open>
  C2, amended. Connecting a sender to a receiver begins no work: for every sender of
  the model (schedule, bulk, or bulk over any inner task) the trace after \<^verbatim>\<open>connect\<close> is
  the trace before it (no call through the scheduler interface, no completion, no
  invocation of a bulk function; \<^verbatim>\<open>connect\<close> only builds the operation state, and as a
  total function of its arguments it waits for nothing). Starting the operation state
  of a \<^verbatim>\<open>system_sender\<close> appends exactly one event, the call
  \<^verbatim>\<open>__schedule(__scheduler_, __cb, &__self)\<close> with the operation state's own address.
  Starting the operation state of a bulk sender makes no call of its own: it is the
  start of the previous operation state, which lives at \<open>a @ [1]\<close> inside it. For every
  sender built from \<^verbatim>\<open>system_sender\<close> and \<^verbatim>\<open>system_bulk_sender\<close> only, starting therefore
  appends exactly one event: the \<^verbatim>\<open>__schedule\<close> call of the innermost \<^verbatim>\<open>__op\<close>, whose
  callback context is the address at which that \<^verbatim>\<open>__op\<close> lives (for a bulk sender not
  the address of the bulk operation state).
\<close>

theorem connect_begins_no_work_start_schedules_once:
  "trace (connect_at a sndr r w) = trace w
   \<and> start_at a (connect_at a (System_sender s0) r w)
       = Some ((connect_at a (System_sender s0) r w)
                 \<lparr>trace := trace w @ [Sched_call (Schedule s0 Op_cb a)]\<rparr>)
   \<and> start_at a (connect_at a (System_bulk_sender s1 previous n f) r w)
       = Some (start (a @ [1])
                 (connect (a @ [1]) previous
                    (Bulk_intermediate_receiver (a @ [0]) (Bulk_state s1 n f r)))
                 (connect_at a (System_bulk_sender s1 previous n f) r w))
   \<and> (system_only sndr \<longrightarrow>
        (\<exists>s recv. leaf_scheduler sndr = Some s
           \<and> deref (memory (connect_at a sndr r w)) (leaf_addr a sndr)
               = Some (Obj_op (Op recv s))
           \<and> start_at a (connect_at a sndr r w)
               = Some ((connect_at a sndr r w)
                         \<lparr>trace := trace w
                            @ [Sched_call (Schedule s Op_cb (leaf_addr a sndr))]\<rparr>)))
   \<and> leaf_addr a (System_sender s0 :: 'a sender) = a
   \<and> leaf_addr a (System_bulk_sender s1 previous n f) = leaf_addr (a @ [1]) previous
   \<and> leaf_addr a (System_bulk_sender s1 previous n f) \<noteq> a"
proof -
  have c: "trace (connect_at a sndr r w) = trace w"
    by (simp add: connect_at_def)
  have p: "start_at a (connect_at a (System_sender s0) r w)
       = Some ((connect_at a (System_sender s0) r w)
                 \<lparr>trace := trace w @ [Sched_call (Schedule s0 Op_cb a)]\<rparr>)"
    by (simp add: start_at_def connect_at_def)
  have q: "start_at a (connect_at a (System_bulk_sender s1 previous n f) r w)
       = Some (start (a @ [1])
                 (connect (a @ [1]) previous
                    (Bulk_intermediate_receiver (a @ [0]) (Bulk_state s1 n f r)))
                 (connect_at a (System_bulk_sender s1 previous n f) r w))"
    by (simp add: start_at_def connect_at_def)
  have g: "\<exists>s recv. leaf_scheduler sndr = Some s
           \<and> deref (memory (connect_at a sndr r w)) (leaf_addr a sndr)
               = Some (Obj_op (Op recv s))
           \<and> start_at a (connect_at a sndr r w)
               = Some ((connect_at a sndr r w)
                         \<lparr>trace := trace w
                            @ [Sched_call (Schedule s Op_cb (leaf_addr a sndr))]\<rparr>)"
    if so: "system_only sndr"
  proof -
    obtain recv s where l: "leaf_scheduler sndr = Some s"
      and o: "object_at a (connect a sndr r) (leaf_addr a sndr) = Some (Obj_op (Op recv s))"
      using object_at_leaf [OF so] by blast
    have "start_at a (connect_at a sndr r w)
        = Some ((connect_at a sndr r w)
                  \<lparr>trace := trace w @ [Sched_call (Schedule s Op_cb (leaf_addr a sndr))]\<rparr>)"
      by (simp add: start_at_def connect_at_def object_at_self start_system_only [OF so l])
    moreover have "deref (memory (connect_at a sndr r w)) (leaf_addr a sndr)
        = Some (Obj_op (Op recv s))"
      using o by (simp add: connect_at_def)
    ultimately show ?thesis
      using l by blast
  qed
  obtain t where "leaf_addr (a @ [1]) previous = (a @ [1]) @ t"
    using leaf_addr_extends by blast
  then have ne: "leaf_addr a (System_bulk_sender s1 previous n f) \<noteq> a"
    by simp
  have la: "leaf_addr a (System_sender s0 :: 'a sender) = a"
    "leaf_addr a (System_bulk_sender s1 previous n f) = leaf_addr (a @ [1]) previous"
    by simp_all
  show ?thesis
    using c p q g ne la by blast
qed

theorem connect_begins_no_work_start_schedules_once_witness:
  "system_only (System_bulk_sender 1 (System_sender 1) 16 5 :: nat sender)
   \<and> trace (connect_at [0] (System_bulk_sender 1 (System_sender 1) 16 5)
              (Final_receiver 9) (empty_world :: nat world)) = []
   \<and> leaf_addr [0] (System_bulk_sender 1 (System_sender 1) 16 5 :: nat sender) = [0, 1]
   \<and> deref (memory (connect_at [0] (System_bulk_sender 1 (System_sender 1) 16 5)
                       (Final_receiver 9) (empty_world :: nat world))) [0, 1]
     = Some (Obj_op (Op (Bulk_intermediate_receiver [0, 0]
                           (Bulk_state 1 16 5 (Final_receiver 9))) 1))
   \<and> map_option trace
       (start_at [0] (connect_at [0] (System_bulk_sender 1 (System_sender 1) 16 5)
                        (Final_receiver 9) (empty_world :: nat world)))
     = Some [Sched_call (Schedule 1 Op_cb [0, 1])]"
  using connect_begins_no_work_start_schedules_once
    [of "[0]" "System_bulk_sender 1 (System_sender 1) 16 5 :: nat sender"
        "Final_receiver 9" empty_world 1]
  by (simp add: empty_world_def connect_at_def)

section \<open>Properties of the bulk sender\<close>

lemma run_items_trace:
  "deref (memory w) state = Some (Obj_state (Bulk_state s n f recv)) \<Longrightarrow>
   arguments_data w state = Some as \<Longrightarrow>
   run_items Type_erased_fn state idxs w
     = Some (w\<lparr>trace := trace w @ map (\<lambda>i. Fn_call f i as) idxs\<rparr>)"
  by (induction idxs arbitrary: w) (simp_all add: type_erased_fn_def)

text \<open>
  What the bulk sender does when its inner task completes with the values \<open>xs\<close>, for
  every \<open>xs\<close> and every count \<open>n\<close>: the start makes the one \<^verbatim>\<open>__bulk_schedule\<close> call; when
  the engine then runs the items and reports a value completion, the bulk function is
  invoked once per index in \<open>[0, n)\<close>, each time with \<open>xs\<close>, and after that the receiver
  gets \<^verbatim>\<open>set_value()\<close> with no argument.
\<close>

lemma bulk_after_value:
  "\<exists>w1 w2.
     start_at a (connect_at a (System_bulk_sender s (Inner_task (Set_value xs)) n f)
                   (Final_receiver k) w) = Some w1
   \<and> trace w1 = trace w @ [Sched_call (Bulk_schedule s Bulk_cb Type_erased_fn (a @ [0]) n)]
   \<and> engine_complete Sig_value (Bulk_schedule s Bulk_cb Type_erased_fn (a @ [0]) n) w1
       = Some w2
   \<and> trace w2 = trace w1 @ map (\<lambda>i. Fn_call f i xs) [0..<n] @ [Delivered k (Set_value [])]"
proof -
  let ?st = "Bulk_state s n f (Final_receiver k)"
  let ?c = "connect_at a (System_bulk_sender s (Inner_task (Set_value xs)) n f)
              (Final_receiver k) w"
  let ?w1 = "?c\<lparr>arguments_data := (arguments_data ?c)(a @ [0] \<mapsto> xs),
                trace := trace w
                  @ [Sched_call (Bulk_schedule s Bulk_cb Type_erased_fn (a @ [0]) n)]\<rparr>"
  have s1: "start_at a ?c = Some ?w1"
    by (simp add: start_at_def connect_at_def object_at_self)
  have d: "deref (memory ?w1) (a @ [0]) = Some (Obj_state ?st)"
    by (simp add: connect_at_def)
  have ar: "arguments_data ?w1 (a @ [0]) = Some xs"
    by simp
  let ?w1' = "?w1\<lparr>trace := trace ?w1 @ map (\<lambda>i. Fn_call f i xs) [0..<n]\<rparr>"
  have r: "run_items Type_erased_fn (a @ [0]) [0..<n] ?w1 = Some ?w1'"
    by (rule run_items_trace [OF d ar])
  have d': "deref (memory ?w1') (a @ [0]) = Some (Obj_state ?st)"
    using d by simp
  have e: "engine_complete Sig_value (Bulk_schedule s Bulk_cb Type_erased_fn (a @ [0]) n) ?w1
        = Some (deliver (Final_receiver k) (Set_value [])
                  (?w1'\<lparr>arguments_data := (arguments_data ?w1')(a @ [0] := None)\<rparr>))"
    using d' by (simp add: r bulk_cb_def pass_to_receiver_def rcvr_ops_def del: deliver.simps)
  show ?thesis
    using s1 e by simp
qed

text \<open>
  C3. The code at a failing input: \<^verbatim>\<open>bulk(task, 2, fn)\<close> where \<open>task\<close> completes with the
  value 7, connected to a receiver and started in the empty world, the engine then
  completing the bulk call. Both invocations of the function see the value 7 and come
  before the completion, but the completion delivered to the receiver is \<^verbatim>\<open>set_value()\<close>
  with no value: the 7 is not carried to the receiver.
\<close>

theorem bulk_value_completion_drops_values:
  "map_option trace
     (Option.bind
        (start_at [0] (connect_at [0] (System_bulk_sender 1 (Inner_task (Set_value [7 :: nat])) 2 5)
                         (Final_receiver 9) empty_world))
        (engine_complete Sig_value (Bulk_schedule 1 Bulk_cb Type_erased_fn [0, 0] 2)))
   = Some [Sched_call (Bulk_schedule 1 Bulk_cb Type_erased_fn [0, 0] 2),
           Fn_call 5 0 [7], Fn_call 5 1 [7], Delivered 9 (Set_value [])]"
proof -
  obtain w1 w2 :: "nat world" where
    "start_at [0] (connect_at [0] (System_bulk_sender 1 (Inner_task (Set_value [7])) 2 5)
                     (Final_receiver 9) empty_world) = Some w1"
    and "trace w1 = trace (empty_world :: nat world)
           @ [Sched_call (Bulk_schedule 1 Bulk_cb Type_erased_fn ([0] @ [0]) 2)]"
    and "engine_complete Sig_value (Bulk_schedule 1 Bulk_cb Type_erased_fn ([0] @ [0]) 2) w1
           = Some w2"
    and "trace w2 = trace w1 @ map (\<lambda>i. Fn_call 5 i [7]) [0..<2] @ [Delivered 9 (Set_value [])]"
    using bulk_after_value [of "[0]" 1 "[7 :: nat]" 2 5 9 empty_world] by blast
  moreover have "[0..<2] = [0, Suc 0]"
    by (simp add: upt_rec)
  ultimately show ?thesis
    by (simp add: empty_world_def)
qed

text \<open>
  C7. When the inner task of \<^verbatim>\<open>bulk(task, n, fn)\<close> completes with cancelled or with an
  error, starting the bulk operation does exactly what delivering that same completion
  (same channel, same exception pointer) to the bulk sender's receiver does: no
  \<^verbatim>\<open>__bulk_schedule\<close> call is made and the function is not invoked. With a receiver that
  records, the trace grows by that one completion. The same holds when the inner task
  is a \<^verbatim>\<open>system_sender\<close> whose engine reports cancelled or an error through the callback.
\<close>

theorem bulk_forwards_stopped_and_error:
  "start_at a (connect_at a (System_bulk_sender s (Inner_task Set_stopped) n f) r w)
     = Some (deliver r Set_stopped
               (connect_at a (System_bulk_sender s (Inner_task Set_stopped) n f) r w))
   \<and> start_at a (connect_at a (System_bulk_sender s (Inner_task (Set_error e)) n f) r w)
     = Some (deliver r (Set_error e)
               (connect_at a (System_bulk_sender s (Inner_task (Set_error e)) n f) r w))
   \<and> map_option trace
       (start_at a (connect_at a (System_bulk_sender s (Inner_task Set_stopped) n f)
                      (Final_receiver k) w))
     = Some (trace w @ [Delivered k Set_stopped])
   \<and> map_option trace
       (start_at a (connect_at a (System_bulk_sender s (Inner_task (Set_error e)) n f)
                      (Final_receiver k) w))
     = Some (trace w @ [Delivered k (Set_error e)])
   \<and> (\<exists>w1. start_at a (connect_at a (System_bulk_sender s (System_sender s') n f) r w)
               = Some w1
          \<and> trace w1 = trace w @ [Sched_call (Schedule s' Op_cb (a @ [1]))]
          \<and> engine_complete Sig_stopped (Schedule s' Op_cb (a @ [1])) w1
               = Some (deliver r Set_stopped w1)
          \<and> engine_complete (Sig_error e) (Schedule s' Op_cb (a @ [1])) w1
               = Some (deliver r (Set_error e) w1))"
proof -
  have inline: "start_at a (connect_at a (System_bulk_sender s (Inner_task c) n f) r' w)
      = Some (deliver r' c (connect_at a (System_bulk_sender s (Inner_task c) n f) r' w))"
    if "c = Set_stopped \<or> c = Set_error e" for c :: "'a completion" and r'
    using that by (auto simp: start_at_def connect_at_def object_at_self)
  have recorded: "map_option trace
        (start_at a (connect_at a (System_bulk_sender s (Inner_task c) n f) (Final_receiver k) w))
      = Some (trace w @ [Delivered k c])"
    if "c = Set_stopped \<or> c = Set_error e" for c :: "'a completion"
    using that by (auto simp: start_at_def connect_at_def object_at_self)
  let ?st = "Bulk_state s n f r"
  define w1 where
    "w1 = (connect_at a (System_bulk_sender s (System_sender s') n f) r w)
            \<lparr>trace := trace w @ [Sched_call (Schedule s' Op_cb (a @ [1]))]\<rparr>"
  have st: "start_at a (connect_at a (System_bulk_sender s (System_sender s') n f) r w) = Some w1"
    by (simp add: w1_def start_at_def connect_at_def object_at_self)
  have tr: "trace w1 = trace w @ [Sched_call (Schedule s' Op_cb (a @ [1]))]"
    by (simp add: w1_def)
  have dr: "deref (memory w1) (a @ [1])
      = Some (Obj_op (Op (Bulk_intermediate_receiver (a @ [0]) ?st) s'))"
    by (simp add: w1_def connect_at_def)
  have ar: "arguments_data w1 (a @ [0]) = None"
    by (simp add: w1_def connect_at_def)
  have idem: "w1\<lparr>arguments_data := (arguments_data w1)(a @ [0] := None)\<rparr> = w1"
    using ar by (simp add: fun_upd_idem)
  have e1: "engine_complete Sig_stopped (Schedule s' Op_cb (a @ [1])) w1
      = Some (deliver r Set_stopped w1)"
    using dr by (simp add: op_cb_def pass_to_receiver_def rcvr_ops_def idem)
  have e2: "engine_complete (Sig_error e) (Schedule s' Op_cb (a @ [1])) w1
      = Some (deliver r (Set_error e) w1)"
    using dr by (simp add: op_cb_def pass_to_receiver_def rcvr_ops_def idem)
  show ?thesis
    using inline [of Set_stopped r] inline [of "Set_error e" r]
      recorded [of Set_stopped] recorded [of "Set_error e"] st tr e1 e2
    by blast
qed

section \<open>Properties of the racing combinator\<close>

lemma run_append: "run (xs @ ys) s = run ys (run xs s)"
  by (induction xs arbitrary: s) simp_all

lemma run_invariant:
  assumes "\<And>s p. I s \<Longrightarrow> I (fire False p s)" and "I s"
  shows "I (run sched s)"
  using assms(2) by (induction sched arbitrary: s) (simp_all add: assms(1))

lemma fire_leaf_below: "fire stop (j # q) (Leaf_op b d) = Leaf_op b d"
  by (cases b; cases d) simp_all

lemma result_start_task: "result (start_task t) = None"
  by (cases t) simp_all

lemma racing_inv_start_task: "racing_inv (start_task t)"
  by (induction t) (simp_all add: result_start_task o_def)

lemma count_update:
  "i < length cs \<Longrightarrow>
   length (filter P (cs[i := x])) + (if P (cs ! i) then 1 else 0)
     = length (filter P cs) + (if P x then 1 else 0)"
proof (induction cs arbitrary: i)
  case Nil
  then show ?case by simp
next
  case (Cons a cs)
  then show ?case by (cases i) auto
qed

lemma racing_inv_delivered_children:
  assumes "racing_inv (Race_op wn out cs dl)" and "dl \<noteq> None"
  shows "\<forall>ch \<in> set cs. result ch \<noteq> None"
proof -
  from assms have "out = length (filter (\<lambda>ch. result ch = None) cs)" and "out = 0"
    by auto
  then have "filter (\<lambda>ch. result ch = None) cs = []"
    by simp
  then show ?thesis
    by (simp add: filter_empty_conv)
qed

lemma racing_inv_RaceI:
  assumes "out = length (filter (\<lambda>ch. result ch = None) cs)"
    and "dl \<noteq> None \<Longrightarrow> out = 0 \<and> dl = wn"
    and "\<And>c. wn = Some c \<Longrightarrow> \<exists>j < length cs. result (cs ! j) = Some c"
    and "\<And>ch. ch \<in> set cs \<Longrightarrow> racing_inv ch"
  shows "racing_inv (Race_op wn out cs dl)"
  using assms by simp

text \<open>An operation state that has delivered its completion takes no further step.\<close>

lemma delivered_fixed: "racing_inv ch \<Longrightarrow> result ch \<noteq> None \<Longrightarrow> fire stop p ch = ch"
proof (induction stop p ch rule: fire.induct)
  case (3 stop i p wn out cs dl)
  show ?case
  proof (cases "i < length cs")
    case True
    have d: "dl \<noteq> None"
      using "3.prems"(2) by simp
    have "\<forall>ch \<in> set cs. result ch \<noteq> None"
      by (rule racing_inv_delivered_children [OF "3.prems"(1) d])
    then have "result (cs ! i) \<noteq> None"
      using True by simp
    moreover have "racing_inv (cs ! i)"
      using "3.prems"(1) True by simp
    ultimately have "fire (stop \<or> wn \<noteq> None) p (cs ! i) = cs ! i"
      using "3.IH" True by blast
    then show ?thesis
      using True \<open>result (cs ! i) \<noteq> None\<close> by (simp add: Let_def)
  next
    case False
    then show ?thesis by simp
  qed
qed simp_all

text \<open>Every step keeps the invariant of the racing-set state.\<close>

lemma racing_inv_fire: "racing_inv ch \<Longrightarrow> racing_inv (fire stop p ch)"
proof (induction stop p ch rule: fire.induct)
  case (3 stop i p wn out cs dl)
  note inv = \<open>racing_inv (Race_op wn out cs dl)\<close>
  show ?case
  proof (cases "i < length cs")
    case False
    then have "fire stop (i # p) (Race_op wn out cs dl) = Race_op wn out cs dl"
      by simp
    then show ?thesis using inv by metis
  next
    case True
    let ?P = "\<lambda>ch. result ch = None"
    let ?ch = "fire (stop \<or> wn \<noteq> None) p (cs ! i)"
    let ?cs = "cs[i := ?ch]"
    have invi: "racing_inv (cs ! i)"
      using inv True by simp
    have invch: "racing_inv ?ch"
      using "3.IH" True invi by blast
    have invall: "\<And>ch. ch \<in> set ?cs \<Longrightarrow> racing_inv ch"
    proof -
      fix ch assume "ch \<in> set ?cs"
      then have "ch = ?ch \<or> ch \<in> set cs"
        using set_update_subset_insert [of cs i ?ch] by auto
      then show "racing_inv ch"
        using invch inv by auto
    qed
    have cnt: "length (filter ?P ?cs) + (if ?P (cs ! i) then 1 else 0)
             = length (filter ?P cs) + (if ?P ?ch then 1 else 0)"
      by (rule count_update [OF True])
    have out: "out = length (filter ?P cs)"
      using inv by simp
    have win: "\<And>c. wn = Some c \<Longrightarrow> \<exists>j < length cs. result (cs ! j) = Some c"
      using inv by simp
    show ?thesis
    proof (cases "result (cs ! i) = None")
      case False
      then have "?ch = cs ! i"
        using invi by (simp add: delivered_fixed)
      then have "fire stop (i # p) (Race_op wn out cs dl) = Race_op wn out cs dl"
        using True False by (simp add: Let_def)
      then show ?thesis using inv by metis
    next
      case inflight: True
      have "cs ! i \<in> set (filter ?P cs)"
        using True inflight by simp
      then have "filter ?P cs \<noteq> []"
        by (metis empty_iff empty_set)
      then have pos: "0 < out"
        using out by simp
      have dl: "dl = None"
      proof (rule ccontr)
        assume "dl \<noteq> None"
        then have "out = 0" using inv by auto
        then show False using pos by simp
      qed
      have keep: "\<And>c. wn = Some c \<Longrightarrow> \<exists>j < length ?cs. result (?cs ! j) = Some c"
      proof -
        fix c assume "wn = Some c"
        then obtain j where j: "j < length cs" "result (cs ! j) = Some c"
          using win by blast
        then have "j \<noteq> i" using inflight by auto
        then have "result (?cs ! j) = Some c" using j by simp
        then show "\<exists>j < length ?cs. result (?cs ! j) = Some c" using j by auto
      qed
      show ?thesis
      proof (cases "result ?ch")
        case None
        have eq: "fire stop (i # p) (Race_op wn out cs dl) = Race_op wn out ?cs None"
          using True inflight None dl by (simp add: Let_def)
        have "racing_inv (Race_op wn out ?cs None)"
        proof (rule racing_inv_RaceI)
          show "out = length (filter ?P ?cs)"
            using cnt inflight None out by simp
        qed (use keep invall in auto)
        then show ?thesis using eq by metis
      next
        case (Some c)
        let ?wn = "if wn = None then Some c else wn"
        let ?dl = "if out = 1 then ?wn else None"
        have eq: "fire stop (i # p) (Race_op wn out cs dl) = Race_op ?wn (out - 1) ?cs ?dl"
          using True inflight Some dl by (simp add: Let_def)
        have new: "result (?cs ! i) = Some c"
          using True Some by simp
        have "racing_inv (Race_op ?wn (out - 1) ?cs ?dl)"
        proof (rule racing_inv_RaceI)
          show "out - 1 = length (filter ?P ?cs)"
            using cnt inflight Some out by simp
        next
          assume "?dl \<noteq> None"
          then show "out - 1 = 0 \<and> ?dl = ?wn"
            by (simp split: if_splits)
        next
          fix c' assume w: "?wn = Some c'"
          show "\<exists>j < length ?cs. result (?cs ! j) = Some c'"
          proof (cases "wn = None")
            case True
            then have "c' = c" using w by simp
            then show ?thesis using new \<open>i < length cs\<close> by auto
          next
            case False
            then have "wn = Some c'" using w by (simp split: if_splits)
            then show ?thesis by (rule keep)
          qed
        next
          fix ch assume "ch \<in> set ?cs"
          then show "racing_inv ch" by (rule invall)
        qed
        then show ?thesis using eq by metis
      qed
    qed
  qed
qed simp_all

lemma racing_inv_run: "racing_inv s \<Longrightarrow> racing_inv (run sched s)"
  by (induction sched arbitrary: s) (simp_all add: racing_inv_fire)

lemma racing_inv_finished: "racing_inv ch \<Longrightarrow> result ch \<noteq> None \<Longrightarrow> finished ch"
proof (induction ch)
  case (Leaf_op b d)
  then show ?case by simp
next
  case (Race_op wn out cs dl)
  have d: "dl \<noteq> None"
    using Race_op.prems(2) by simp
  have r: "\<forall>ch \<in> set cs. result ch \<noteq> None"
    by (rule racing_inv_delivered_children [OF Race_op.prems(1) d])
  have "\<forall>ch \<in> set cs. racing_inv ch"
    using Race_op.prems(1) by simp
  then have "\<forall>ch \<in> set cs. finished ch"
    using r Race_op.IH by blast
  then show ?case
    using d by simp
qed

lemma racing_inv_quiescent: "racing_inv ch \<Longrightarrow> quiescent ch"
proof (induction ch)
  case (Leaf_op b d)
  then show ?case by simp
next
  case (Race_op wn out cs dl)
  have invc: "\<forall>ch \<in> set cs. racing_inv ch"
    using Race_op.prems by simp
  have "dl \<noteq> None \<Longrightarrow> \<forall>ch \<in> set cs. finished ch"
    using racing_inv_delivered_children [OF Race_op.prems] invc racing_inv_finished by blast
  moreover have "\<forall>ch \<in> set cs. quiescent ch"
    using invc Race_op.IH by blast
  ultimately show ?case by simp
qed

lemma fire_waits_then_completes:
  assumes "s \<in> waits_then_completes c"
  shows "fire False p s \<in> waits_then_completes c"
proof (cases p)
  case Nil
  then show ?thesis
    using assms by (auto simp: waits_then_completes_def)
next
  case (Cons i q)
  consider "i = 0" | "i = 1" | "2 \<le> i" by linarith
  then show ?thesis
  proof cases
    case 1
    then show ?thesis
      using assms Cons
      by (cases q) (auto simp: waits_then_completes_def fire_leaf_below Let_def)
  next
    case 2
    then show ?thesis
      using assms Cons
      by (cases q) (auto simp: waits_then_completes_def fire_leaf_below Let_def)
  next
    case 3
    then show ?thesis
      using assms Cons by (auto simp: waits_then_completes_def)
  qed
qed

lemma fire_completes_then_waits:
  assumes "s \<in> completes_then_waits c"
  shows "fire False p s \<in> completes_then_waits c"
proof (cases p)
  case Nil
  then show ?thesis
    using assms by (auto simp: completes_then_waits_def)
next
  case (Cons i q)
  consider "i = 0" | "i = 1" | "2 \<le> i" by linarith
  then show ?thesis
  proof cases
    case 1
    then show ?thesis
      using assms Cons
      by (cases q) (auto simp: completes_then_waits_def fire_leaf_below Let_def)
  next
    case 2
    then show ?thesis
      using assms Cons
      by (cases q) (auto simp: completes_then_waits_def fire_leaf_below Let_def)
  next
    case 3
    then show ?thesis
      using assms Cons by (auto simp: completes_then_waits_def)
  qed
qed


lemma finish_waits_then_completes:
  assumes "s \<in> waits_then_completes c"
  shows "result (run [[1], [0]] s) = Some c"
  using assms by (auto simp: waits_then_completes_def Let_def)

lemma finish_completes_then_waits:
  assumes "s \<in> completes_then_waits c"
  shows "result (run [[0], [1]] s) = Some c"
  using assms by (auto simp: completes_then_waits_def Let_def)


lemma result_waits_then_completes:
  "s \<in> waits_then_completes c \<Longrightarrow> result s \<in> {None, Some c}"
  by (auto simp: waits_then_completes_def)

lemma result_completes_then_waits:
  "s \<in> completes_then_waits c \<Longrightarrow> result s \<in> {None, Some c}"
  by (auto simp: completes_then_waits_def)


lemma run_waits_then_completes:
  "run sched (start_task (When_any [Waits_for_stop, Completes c])) \<in> waits_then_completes c"
proof -
  have "start_task (When_any [Waits_for_stop, Completes c]) \<in> waits_then_completes c"
    by (simp add: waits_then_completes_def)
  then show ?thesis
    using run_invariant [of "\<lambda>s. s \<in> waits_then_completes c" _ sched]
      fire_waits_then_completes [of _ c]
    by blast
qed

lemma run_completes_then_waits:
  "run sched (start_task (When_any [Completes c, Waits_for_stop])) \<in> completes_then_waits c"
proof -
  have "start_task (When_any [Completes c, Waits_for_stop]) \<in> completes_then_waits c"
    by (simp add: completes_then_waits_def)
  then show ?thesis
    using run_invariant [of "\<lambda>s. s \<in> completes_then_waits c" _ sched]
      fire_completes_then_waits [of _ c]
    by blast
qed


text \<open>
  C4. \<^verbatim>\<open>when_any(A, B)\<close> where \<open>A\<close> never completes on its own (it completes with cancelled
  once cancellation is requested, as \<^verbatim>\<open>completes_if{false}\<close> of the tests does) and \<open>B\<close>
  completes with the value 42: under every interleaving the combinator has either not
  delivered yet or has delivered the value 42, and every interleaving can be continued
  to one after which the value 42 is delivered. Symmetrically, when \<open>A\<close> completes with
  the values \<open>v\<close> and \<open>B\<close> never completes on its own, the result is the value completion
  with \<open>v\<close>.
\<close>

theorem when_any_single_completer_wins:
  "result (run sched (start_task (When_any [Waits_for_stop, Completes (Set_value [42 :: nat])])))
     \<in> {None, Some (Set_value [42])}
   \<and> (\<exists>more. result (run (sched @ more)
                  (start_task (When_any [Waits_for_stop, Completes (Set_value [42 :: nat])])))
              = Some (Set_value [42]))
   \<and> result (run sched' (start_task (When_any [Completes (Set_value v), Waits_for_stop])))
     \<in> {None, Some (Set_value v)}
   \<and> (\<exists>more. result (run (sched' @ more)
                  (start_task (When_any [Completes (Set_value v), Waits_for_stop])))
              = Some (Set_value v))"
proof -
  let ?s = "start_task (When_any [Waits_for_stop, Completes (Set_value [42 :: nat])])"
  let ?s' = "start_task (When_any [Completes (Set_value v), Waits_for_stop])"
  have "result (run (sched @ [[1], [0]]) ?s) = Some (Set_value [42])"
    unfolding run_append
    by (rule finish_waits_then_completes [OF run_waits_then_completes])
  moreover have "result (run (sched' @ [[0], [1]]) ?s') = Some (Set_value v)"
    unfolding run_append
    by (rule finish_completes_then_waits [OF run_completes_then_waits])
  ultimately show ?thesis
    using result_waits_then_completes [OF run_waits_then_completes [of sched "Set_value [42]"]]
      result_completes_then_waits [OF run_completes_then_waits [of sched' "Set_value v"]]
    by blast
qed

theorem when_any_single_completer_wins_witness:
  "result (run [[0], [1], [0]]
             (start_task (When_any [Waits_for_stop, Completes (Set_value [42 :: nat])])))
     = Some (Set_value [42])
   \<and> result (run [[1], [0], [1]]
               (start_task (When_any [Completes (Set_value [1 :: nat]), Waits_for_stop])))
     = Some (Set_value [1])"
  using when_any_single_completer_wins [of "[[0], [1], [0]]" "[[1], [0], [1]]" "[1 :: nat]"]
  by (simp add: Let_def)

text \<open>
  C5. Under every interleaving of every task tree, whenever a \<^verbatim>\<open>when_any\<close> at any depth
  has delivered its completion to its consumer, every child operation state below it
  has delivered its own completion, and so has everything below the children: no
  operation state is in flight under a race that has completed. In particular, once
  the outermost operation state has delivered, the whole tree is finished.
\<close>

theorem when_any_delivers_after_children:
  "quiescent (run sched (start_task t))
   \<and> (result (run sched (start_task t)) \<noteq> None \<longrightarrow> finished (run sched (start_task t)))"
proof -
  have "racing_inv (run sched (start_task t))"
    by (rule racing_inv_run [OF racing_inv_start_task])
  then show ?thesis
    using racing_inv_quiescent racing_inv_finished by blast
qed

theorem when_any_delivers_after_children_witness:
  "result (run [[2], [0, 0], [1], [0, 1], [3]]
             (start_task (When_any [When_any [Waits_for_stop, Waits_for_stop], Waits_for_stop,
                                    Completes (Set_value ([] :: nat list)), Waits_for_stop])))
     = Some (Set_value [])
   \<and> finished (run [[2], [0, 0], [1], [0, 1], [3]]
             (start_task (When_any [When_any [Waits_for_stop, Waits_for_stop], Waits_for_stop,
                                    Completes (Set_value ([] :: nat list)), Waits_for_stop])))
   \<and> result (run [[2], [0, 0], [1], [0, 1]]
             (start_task (When_any [When_any [Waits_for_stop, Waits_for_stop], Waits_for_stop,
                                    Completes (Set_value ([] :: nat list)), Waits_for_stop])))
     = None"
proof -
  let ?t = "When_any [When_any [Waits_for_stop, Waits_for_stop], Waits_for_stop,
                      Completes (Set_value ([] :: nat list)), Waits_for_stop]"
  have r: "result (run [[2], [0, 0], [1], [0, 1], [3]] (start_task ?t)) = Some (Set_value [])"
    by (simp add: Let_def)
  have n: "result (run [[2], [0, 0], [1], [0, 1]] (start_task ?t)) = None"
    by (simp add: Let_def)
  have "finished (run [[2], [0, 0], [1], [0, 1], [3]] (start_task ?t))"
    using when_any_delivers_after_children [of "[[2], [0, 0], [1], [0, 1], [3]]" ?t] r
    by simp
  then show ?thesis
    using r n by blast
qed














end
